theory Spec2Isabelle
  imports Main
begin

section \<open>Shared data model\<close>

text \<open>
  The embedding follows \<^verbatim>\<open>dace/transformation/auto/auto_optimize.py\<close>. The graph
  library, the rewrite primitives, the symbolic library and the installation probes are
  collaborators of that file; each function below takes what it asks of them as a
  parameter, and every call of a rewrite primitive, validator or printer is recorded as
  an event in the order the source makes it.
\<close>

datatype error = TypeError | KeyError | IndexError

text \<open>The members of \<^verbatim>\<open>dtypes.DeviceType\<close>.\<close>

datatype DeviceType = CPU | GPU | FPGA

text \<open>
  The members of \<^verbatim>\<open>dtypes.StorageType\<close>, \<^verbatim>\<open>dtypes.AllocationLifetime\<close> and
  \<^verbatim>\<open>dtypes.ScheduleType\<close> that the source names, and one more of each for every
  other member.
\<close>

datatype StorageType = Default | Register | GPU_Global | Other_Storage

datatype AllocationLifetime = Scope | Persistent | Other_Lifetime

datatype ScheduleType = Sequential | Other_Schedule

text \<open>
  A size is a concrete integer or an unresolved symbolic expression, kept as its text.
  A comparison of a size with a number is SymPy's: decided (\<open>Definitely\<close>), or left as
  an unevaluated relational.
\<close>

datatype size = Num int | Sym string

datatype truth = Definitely bool | Relational

type_synonym constants = "string \<rightharpoonup> int"

text \<open>
  What the source asks of \<^verbatim>\<open>dace.symbolic\<close> and of SymPy on a symbolic expression.
  On concrete integers the operations are computed below.
\<close>

record symbolic =
  sym_issymbolic :: "string \<Rightarrow> constants \<Rightarrow> bool"
  sym_evaluate :: "string \<Rightarrow> constants \<Rightarrow> size"
  sym_lt :: "string \<Rightarrow> int \<Rightarrow> truth"
  sym_le :: "string \<Rightarrow> int \<Rightarrow> truth"
  sym_mul :: "size \<Rightarrow> size \<Rightarrow> size"

fun issymbolic :: "symbolic \<Rightarrow> size \<Rightarrow> constants \<Rightarrow> bool" where
  "issymbolic sy (Num n) c = False"
| "issymbolic sy (Sym x) c = sym_issymbolic sy x c"

fun evaluate :: "symbolic \<Rightarrow> size \<Rightarrow> constants \<Rightarrow> size" where
  "evaluate sy (Num n) c = Num n"
| "evaluate sy (Sym x) c = sym_evaluate sy x c"

fun size_lt :: "symbolic \<Rightarrow> size \<Rightarrow> int \<Rightarrow> truth" where
  "size_lt sy (Num n) t = Definitely (n < t)"
| "size_lt sy (Sym x) t = sym_lt sy x t"

fun size_le :: "symbolic \<Rightarrow> size \<Rightarrow> int \<Rightarrow> truth" where
  "size_le sy (Num n) t = Definitely (n \<le> t)"
| "size_le sy (Sym x) t = sym_le sy x t"

fun size_mul :: "symbolic \<Rightarrow> size \<Rightarrow> size \<Rightarrow> size" where
  "size_mul sy (Num a) (Num b) = Num (a * b)"
| "size_mul sy a b = sym_mul sy a b"

text \<open>The keys of the process configuration that the source reads.\<close>

record config =
  autotile_size :: int
  autotile_partial_parallelism :: bool
  debugprint :: bool

text \<open>A data descriptor of \<^verbatim>\<open>sdfg.arrays\<close>; \<open>is_stream\<close> is \<^verbatim>\<open>isinstance(array, dt.Stream)\<close>.\<close>

record data_desc =
  is_stream :: bool
  dtype :: string
  transient :: bool
  storage :: StorageType
  lifetime :: AllocationLifetime
  total_size :: size

section \<open>Implementation selector\<close>

text \<open>The installation probes \<^verbatim>\<open>mkl.IntelMKL.is_installed()\<close> and \<^verbatim>\<open>openblas.OpenBLAS.is_installed()\<close>.\<close>

record environments =
  mkl_is_installed :: bool
  openblas_is_installed :: bool

definition find_fast_library :: "environments \<Rightarrow> DeviceType \<Rightarrow> string list" where
  "find_fast_library env device =
     (if device = GPU then [''cuBLAS'', ''CUB'', ''pure'']
      else if device = CPU then
        (let result =
           (if mkl_is_installed env then [''MKL'']
            else if openblas_is_installed env then [''OpenBLAS'']
            else [])
         in result @ [''pure''])
      else [''pure''])"

definition implementation_prio :: "environments \<Rightarrow> DeviceType \<Rightarrow> string list option \<Rightarrow> string list" where
  "implementation_prio env device blocklist =
     (case blocklist of
        None \<Rightarrow> find_fast_library env device
      | Some bl \<Rightarrow> filter (\<lambda>i. i \<notin> set bl) (find_fast_library env device))"

text \<open>
  A library node: \<open>node_type\<close> is \<^verbatim>\<open>type(node)\<close>, \<open>implementations\<close> the keys of
  \<^verbatim>\<open>node.implementations\<close>. The nodes that \<^verbatim>\<open>sdfg.all_nodes_recursive()\<close> yields are
  either library nodes or not.
\<close>

record library_node =
  name :: string
  node_type :: string
  implementations :: "string list"
  implementation :: "string option"
  default_implementation :: "string option"

datatype call_node = Library_Node library_node | Non_Library_Node

datatype selector_event = Print_Specializing string | Expand string | Warn string

text \<open>
  The first loop of \<^verbatim>\<open>set_fast_implementations\<close>. \<open>expand\<close> stands for
  \<^verbatim>\<open>node.expand(current_sdfg, state)\<close>: the nodes that replace the expanded one.
\<close>

fun pre_expand ::
  "(library_node \<Rightarrow> call_node list) \<Rightarrow> string list \<Rightarrow> call_node list
    \<Rightarrow> call_node list \<times> selector_event list" where
  "pre_expand expand prio [] = ([], [])"
| "pre_expand expand prio (Non_Library_Node # ns) =
     (case pre_expand expand prio ns of (ns', evs) \<Rightarrow> (Non_Library_Node # ns', evs))"
| "pre_expand expand prio (Library_Node n # ns) =
     (case pre_expand expand prio ns of (ns', evs) \<Rightarrow>
        if default_implementation n = Some ''specialize''
           \<and> card (set (implementations n) \<inter> set prio) = 0
        then (expand n @ ns', Print_Specializing (name n) # Expand (name n) # evs)
        else (Library_Node n # ns', evs))"

text \<open>The inner \<^verbatim>\<open>for impl in implementation_prio\<close> loop: the entry at which it breaks, if any.\<close>

fun first_supported :: "string list \<Rightarrow> string list \<Rightarrow> string option" where
  "first_supported [] impls = None"
| "first_supported (impl # prio) impls =
     (if impl \<in> set impls then Some impl else first_supported prio impls)"

text \<open>The second loop of \<^verbatim>\<open>set_fast_implementations\<close>.\<close>

fun set_implementations ::
  "string list \<Rightarrow> string list \<Rightarrow> call_node list \<Rightarrow> call_node list \<times> selector_event list" where
  "set_implementations prio ignore_types [] = ([], [])"
| "set_implementations prio ignore_types (Non_Library_Node # ns) =
     (case set_implementations prio ignore_types ns of (ns', evs) \<Rightarrow> (Non_Library_Node # ns', evs))"
| "set_implementations prio ignore_types (Library_Node n # ns) =
     (case set_implementations prio ignore_types ns of (ns', evs) \<Rightarrow>
        if node_type n \<notin> set ignore_types then
          (case first_supported prio (implementations n) of
             Some impl \<Rightarrow> (Library_Node (n\<lparr>implementation := Some impl\<rparr>) # ns', evs)
           | None \<Rightarrow> (Library_Node n # ns', Warn (name n) # evs))
        else (Library_Node n # ns', evs))"

definition set_fast_implementations ::
  "environments \<Rightarrow> (library_node \<Rightarrow> call_node list) \<Rightarrow> call_node list \<Rightarrow> DeviceType
    \<Rightarrow> string list option \<Rightarrow> string list \<Rightarrow> call_node list \<times> selector_event list" where
  "set_fast_implementations env expand nodes device blocklist ignore_types =
     (let prio = implementation_prio env device blocklist in
      case pre_expand expand prio nodes of (ns1, evs1) \<Rightarrow>
      case set_implementations prio ignore_types ns1 of (ns2, evs2) \<Rightarrow>
        (ns2, evs1 @ evs2))"

section \<open>Storage reclassifier\<close>

text \<open>
  One iteration of the loop of \<^verbatim>\<open>move_small_arrays_to_stack\<close> over
  \<^verbatim>\<open>sdfg.arrays_recursive()\<close>: the descriptor afterwards, and whether \<open>converted\<close> was
  incremented. A relational that SymPy cannot decide raises \<^verbatim>\<open>TypeError\<close> in the
  \<^verbatim>\<open>if\<close>, which the source catches and passes.
\<close>

definition move_array :: "symbolic \<Rightarrow> int \<Rightarrow> constants \<Rightarrow> data_desc \<Rightarrow> data_desc \<times> bool" where
  "move_array sy tile_size sd array =
     (if is_stream array then (array, False)
      else if transient array \<and> storage array = Default \<and> lifetime array = Scope then
        (if \<not> issymbolic sy (total_size array) sd then
           (let eval_size = evaluate sy (total_size array) sd in
            case size_le sy eval_size tile_size of
              Definitely True \<Rightarrow> (array\<lparr>storage := Register\<rparr>, True)
            | Definitely False \<Rightarrow> (array, False)
            | Relational \<Rightarrow> (array, False))
         else (array, False))
      else (array, False))"

datatype reclassifier_event = Print_Statically_allocating nat

fun move_arrays ::
  "symbolic \<Rightarrow> int \<Rightarrow> (constants \<times> string \<times> data_desc) list
    \<Rightarrow> (constants \<times> string \<times> data_desc) list \<times> nat" where
  "move_arrays sy tile_size [] = ([], 0)"
| "move_arrays sy tile_size ((sd, aname, array) # rest) =
     (case move_array sy tile_size sd array of (array', conv) \<Rightarrow>
      case move_arrays sy tile_size rest of (rest', converted) \<Rightarrow>
        ((sd, aname, array') # rest', (if conv then 1 else 0) + converted))"

text \<open>
  \<^verbatim>\<open>move_small_arrays_to_stack\<close>, on the triples that \<^verbatim>\<open>sdfg.arrays_recursive()\<close> yields
  (the program's own descriptors, then those of every nested SDFG).
\<close>

definition move_small_arrays_to_stack ::
  "symbolic \<Rightarrow> config \<Rightarrow> (constants \<times> string \<times> data_desc) list
    \<Rightarrow> (constants \<times> string \<times> data_desc) list \<times> reclassifier_event list" where
  "move_small_arrays_to_stack sy cfg arrays_recursive =
     (let tile_size = autotile_size cfg in
      case move_arrays sy tile_size arrays_recursive of (arrays', converted) \<Rightarrow>
        (arrays',
         if debugprint cfg \<and> converted > 0 then [Print_Statically_allocating converted] else []))"


section \<open>Greedy fusion engine\<close>

text \<open>
  What \<^verbatim>\<open>greedy_fuse\<close> is given, with what its collaborators answer on it:
  \<^item> \<open>SDFG states\<close>: an SDFG and its \<^verbatim>\<open>nodes()\<close>;
  \<^item> \<open>SDFGState cs ns\<close> and \<open>SubgraphView cs ns\<close>: a state, or a subgraph of one, with
    the map-entry lists \<open>cs\<close> that \<^verbatim>\<open>GreedyEnumerator\<close> yields on it and its \<^verbatim>\<open>nodes()\<close>;
  \<^item> \<open>Candidate map_entries body\<close>: one yielded list of map entries, with the view
    that \<^verbatim>\<open>graph.scope_subgraph(global_entry, ...)\<close> returns once the list has been
    processed;
  \<^item> \<open>Nested_SDFG sdfg\<close>: a node that is a \<^verbatim>\<open>nodes.NestedSDFG\<close>, with its \<^verbatim>\<open>node.sdfg\<close>.
\<close>

datatype view =
    SDFG "view list"
  | SDFGState "candidate list" "fuse_node list"
  | SubgraphView "candidate list" "fuse_node list"
and candidate = Candidate "nat list" view
and fuse_node = Nested_SDFG view | Plain_Node

record fuse_args =
  validate_all :: bool
  device :: DeviceType
  recursive :: bool
  tile :: bool

datatype call_site = State_Of_SDFG | Scope_Body | Nested_Subprogram

text \<open>
  The calls \<^verbatim>\<open>greedy_fuse\<close> makes, in order. \<open>Call site caller callee\<close> is a recursive
  call of \<^verbatim>\<open>greedy_fuse\<close> at one of its three call sites, with the arguments of the
  running invocation and those it passes.
\<close>

datatype fuse_event =
    Apply_strict_transformations bool
  | Apply_MapFusion_repeated bool
  | GreedyEnumerator bool
  | Set_allow_tiling bool
  | Set_schedule_innermaps ScheduleType
  | Set_stencil_unroll_loops bool
  | CompositeFusion_apply "nat list"
  | Sdfg_validate
  | Graph_validate
  | Print_TileFusion nat
  | Print_SubgraphFusion nat
  | Call call_site fuse_args fuse_args

text \<open>From the construction of the enumerator to the loop over it.\<close>

definition fuse_setup :: "fuse_args \<Rightarrow> fuse_event list" where
  "fuse_setup a =
     GreedyEnumerator (if tile a then True else False)
     # (if tile a then
          [Set_allow_tiling True, Set_schedule_innermaps Sequential]
          @ (if device a = GPU then [Set_stencil_unroll_loops True] else [])
        else [Set_allow_tiling False])"

text \<open>After the two loops: the report, then the validation.\<close>

definition fuse_finish :: "fuse_args \<Rightarrow> nat \<Rightarrow> fuse_event list" where
  "fuse_finish a applied_transformations =
     (if applied_transformations > 0 then
        (if tile a then [Print_TileFusion applied_transformations]
         else [Print_SubgraphFusion applied_transformations])
      else [])
     @ (if validate_all a then [Graph_validate] else [])"

text \<open>
  \<open>greedy_fuse\<close> returns the events up to its return or up to the exception that ends
  it. \<open>fuse_states\<close> is the loop over the states of an SDFG, \<open>fuse_candidates\<close> the loop
  over the enumerator (with \<open>applied_transformations\<close> as third component),
  \<open>fuse_nested\<close> the loop over the nodes.
\<close>

fun greedy_fuse :: "view \<Rightarrow> fuse_args \<Rightarrow> fuse_event list \<times> error option"
and fuse_states :: "view list \<Rightarrow> fuse_args \<Rightarrow> fuse_event list \<times> error option"
and fuse_candidates :: "candidate list \<Rightarrow> fuse_args \<Rightarrow> fuse_event list \<times> error option \<times> nat"
and fuse_nested :: "fuse_node list \<Rightarrow> fuse_args \<Rightarrow> fuse_event list \<times> error option" where
  "greedy_fuse (SDFG states) a =
     (case fuse_states states a of (t, e) \<Rightarrow>
        (Apply_strict_transformations (validate_all a)
         # Apply_MapFusion_repeated (validate_all a) # t, e))"
| "greedy_fuse (SDFGState cs ns) a =
     (case fuse_candidates cs a of
        (t1, Some e, applied) \<Rightarrow>
          (Apply_MapFusion_repeated (validate_all a) # fuse_setup a @ t1, Some e)
      | (t1, None, applied) \<Rightarrow>
          (case fuse_nested ns a of
             (t2, Some e) \<Rightarrow>
               (Apply_MapFusion_repeated (validate_all a) # fuse_setup a @ t1 @ t2, Some e)
           | (t2, None) \<Rightarrow>
               (Apply_MapFusion_repeated (validate_all a) # fuse_setup a @ t1 @ t2
                  @ fuse_finish a applied, None)))"
| "greedy_fuse (SubgraphView cs ns) a =
     (case fuse_candidates cs a of
        (t1, Some e, applied) \<Rightarrow> (fuse_setup a @ t1, Some e)
      | (t1, None, applied) \<Rightarrow>
          (case fuse_nested ns a of
             (t2, Some e) \<Rightarrow> (fuse_setup a @ t1 @ t2, Some e)
           | (t2, None) \<Rightarrow> (fuse_setup a @ t1 @ t2 @ fuse_finish a applied, None)))"
| "fuse_states [] a = ([], None)"
| "fuse_states (graph # graphs) a =
     (case greedy_fuse graph
             \<lparr>validate_all = validate_all a, device = device a,
              recursive = recursive a, tile = tile a\<rparr> of
        (t1, Some e) \<Rightarrow>
          (Call State_Of_SDFG a
             \<lparr>validate_all = validate_all a, device = device a,
              recursive = recursive a, tile = tile a\<rparr> # t1, Some e)
      | (t1, None) \<Rightarrow>
          (case fuse_states graphs a of (t2, e2) \<Rightarrow>
             (Call State_Of_SDFG a
                \<lparr>validate_all = validate_all a, device = device a,
                 recursive = recursive a, tile = tile a\<rparr> # t1 @ t2, e2)))"
| "fuse_candidates [] a = ([], None, 0)"
| "fuse_candidates (Candidate map_entries body # cs) a =
     (if recursive a then
        (if map_entries = [] then ([], Some IndexError, 0)
         else
           (case greedy_fuse body
                   \<lparr>validate_all = validate_all a, device = CPU, recursive = True, tile = False\<rparr> of
              (t1, Some e) \<Rightarrow>
                ((if length map_entries > 1
                  then [CompositeFusion_apply map_entries, Sdfg_validate] else [])
                 @ Call Scope_Body a
                     \<lparr>validate_all = validate_all a, device = CPU, recursive = True, tile = False\<rparr>
                 # t1, Some e, if length map_entries > 1 then 1 else 0)
            | (t1, None) \<Rightarrow>
                (case fuse_candidates cs a of (t2, e2, applied) \<Rightarrow>
                   ((if length map_entries > 1
                     then [CompositeFusion_apply map_entries, Sdfg_validate] else [])
                    @ Call Scope_Body a
                        \<lparr>validate_all = validate_all a, device = CPU, recursive = True,
                         tile = False\<rparr>
                    # t1 @ t2, e2, (if length map_entries > 1 then 1 else 0) + applied))))
      else
        (case fuse_candidates cs a of (t2, e2, applied) \<Rightarrow>
           ((if length map_entries > 1
             then [CompositeFusion_apply map_entries, Sdfg_validate] else [])
            @ t2, e2, (if length map_entries > 1 then 1 else 0) + applied)))"
| "fuse_nested [] a = ([], None)"
| "fuse_nested (Plain_Node # ns) a = fuse_nested ns a"
| "fuse_nested (Nested_SDFG sdfg # ns) a =
     (case greedy_fuse sdfg
             \<lparr>validate_all = validate_all a, device = device a,
              recursive = recursive a, tile = tile a\<rparr> of
        (t1, Some e) \<Rightarrow>
          (Call Nested_Subprogram a
             \<lparr>validate_all = validate_all a, device = device a,
              recursive = recursive a, tile = tile a\<rparr> # t1, Some e)
      | (t1, None) \<Rightarrow>
          (case fuse_nested ns a of (t2, e2) \<Rightarrow>
             (Call Nested_Subprogram a
                \<lparr>validate_all = validate_all a, device = device a,
                 recursive = recursive a, tile = tile a\<rparr> # t1 @ t2, e2)))"


section \<open>Write-conflict tiler\<close>

text \<open>
  A node of a state, with the identity of the object. The scope nodes are those of maps:
  \<open>MapEntry m\<close> and \<open>MapExit m\<close> are the entry and the exit of the map \<open>m\<close>
  (\<^verbatim>\<open>nodes.EntryNode\<close> and \<^verbatim>\<open>nodes.ExitNode\<close>; consume scopes are left out).
\<close>

datatype node =
    AccessNode nat
  | Tasklet nat
  | MapEntry nat
  | MapExit nat
  | NestedSDFG nat
  | Other_Node nat

fun is_EntryNode :: "node \<Rightarrow> bool" where
  "is_EntryNode (MapEntry m) = True"
| "is_EntryNode n = False"

fun is_ExitNode :: "node \<Rightarrow> bool" where
  "is_ExitNode (MapExit m) = True"
| "is_ExitNode n = False"

fun is_NestedSDFG :: "node \<Rightarrow> bool" where
  "is_NestedSDFG (NestedSDFG k) = True"
| "is_NestedSDFG n = False"

fun is_Tasklet :: "node \<Rightarrow> bool" where
  "is_Tasklet (Tasklet k) = True"
| "is_Tasklet n = False"

text \<open>
  An edge with the fields of its memlet that the source reads: \<open>eid\<close> is the identity
  of the edge object, \<open>data\<close> is \<^verbatim>\<open>edge.data.data\<close>, \<open>wcr\<close> is \<^verbatim>\<open>edge.data.wcr\<close>, and
  \<open>dst_subset\<close> is \<^verbatim>\<open>dst_subset.num_elements()\<close> when there is a \<^verbatim>\<open>dst_subset\<close>.
\<close>

record memlet_edge =
  eid :: nat
  src :: node
  dst :: node
  data :: string
  wcr :: "string option"
  is_empty :: bool
  wcr_nonatomic :: bool
  dst_subset :: "size option"
  dynamic :: bool

text \<open>The map of a map entry: \<^verbatim>\<open>params\<close>, \<^verbatim>\<open>range.size()\<close> and \<^verbatim>\<open>schedule\<close>.\<close>

record map_scope =
  params :: "string list"
  range_size :: "size list"
  schedule :: ScheduleType

text \<open>
  A state or a subgraph of a state, as \<^verbatim>\<open>tile_wcrs\<close> reads it: \<open>arrays\<close> is
  \<^verbatim>\<open>graph.parent.arrays\<close>, \<open>nodes\<close> and \<open>edges\<close> are those of \<^verbatim>\<open>graph_or_subgraph\<close>,
  and \<open>maps\<close> is the store of the map objects, by identity.
\<close>

record region =
  arrays :: "string \<rightharpoonup> data_desc"
  nodes :: "node list"
  edges :: "memlet_edge list"
  maps :: "nat \<Rightarrow> map_scope"

text \<open>
  What \<^verbatim>\<open>tile_wcrs\<close> asks of its collaborators:
  \<^verbatim>\<open>cpp.is_write_conflicted_with_reason(graph, edge)\<close> (a reason that is not a node is
  an \<open>Other_Node\<close>), \<^verbatim>\<open>operations.detect_reduction_type\<close>, \<^verbatim>\<open>dtypes.reduction_identity\<close>,
  \<^verbatim>\<open>cpp.write_conflicted_map_params(mapentry, edge)\<close>, the list
  \<^verbatim>\<open>graph.out_edges(graph.exit_node(mapentry))\<close> once the map has been tiled,
  \<^verbatim>\<open>graph.memlet_path\<close>, and the symbolic library.
\<close>

record collaborators =
  is_write_conflicted_with_reason :: "region \<Rightarrow> memlet_edge \<Rightarrow> node option"
  detect_reduction_type :: "string \<Rightarrow> string"
  reduction_identity :: "string \<Rightarrow> string \<Rightarrow> string option"
  write_conflicted_map_params :: "nat \<Rightarrow> memlet_edge \<Rightarrow> string list"
  out_edges_of_exit :: "nat \<Rightarrow> memlet_edge list"
  memlet_path :: "memlet_edge \<Rightarrow> memlet_edge list"
  symbolics :: symbolic

text \<open>
  The rewrites \<^verbatim>\<open>tile_wcrs\<close> applies and what it prints, in order:
  \<^verbatim>\<open>xfh.extract_map_dims(sdfg, mapentry, dims)\<close>, \<^verbatim>\<open>MapTiling.apply_to\<close> with the tile
  size, \<^verbatim>\<open>StreamTransient.apply_to\<close> with the tasklet, and
  \<^verbatim>\<open>AccumulateTransient.apply_to\<close> with the array and the identity. What a rewrite does
  to the graph is the rewrite's own; the store of maps changes only where the source
  assigns to it.
\<close>

datatype tiler_event =
    Extract_map_dims nat "nat list"
  | MapTiling nat int
  | StreamTransient nat node
  | AccumulateTransient nat string string
  | Print_Making_sequential nat
  | Print_Optimized nat

text \<open>
  One iteration of the first loop of \<^verbatim>\<open>tile_wcrs\<close>: \<open>None\<close> where the source
  continues, the pair it adds to \<open>edges_to_consider\<close> otherwise.
\<close>

definition consider_edge ::
  "collaborators \<Rightarrow> region \<Rightarrow> memlet_edge \<Rightarrow> error + (memlet_edge \<times> nat) option" where
  "consider_edge ext graph edge =
     (case wcr edge of
        None \<Rightarrow> Inr None
      | Some w \<Rightarrow>
          if is_ExitNode (src edge) \<or> is_NestedSDFG (src edge) \<or> is_EntryNode (dst edge)
          then Inr None
          else
            (case is_write_conflicted_with_reason ext graph edge of
               None \<Rightarrow> Inr None
             | Some (MapEntry m) \<Rightarrow>
                 if MapEntry m \<notin> set (nodes graph) then Inr None
                 else
                   (let redtype = detect_reduction_type ext w in
                    case arrays graph (data edge) of
                      None \<Rightarrow> Inl KeyError
                    | Some desc \<Rightarrow>
                        (case reduction_identity ext (dtype desc) redtype of
                           None \<Rightarrow> Inr None
                         | Some identity \<Rightarrow> Inr (Some (edge, m))))
             | Some other \<Rightarrow> Inr None))"

fun collect_edges ::
  "collaborators \<Rightarrow> region \<Rightarrow> memlet_edge list \<Rightarrow> error + (memlet_edge \<times> nat) list" where
  "collect_edges ext graph [] = Inr []"
| "collect_edges ext graph (edge # rest) =
     (case consider_edge ext graph edge of
        Inl e \<Rightarrow> Inl e
      | Inr found \<Rightarrow>
          (case collect_edges ext graph rest of
             Inl e \<Rightarrow> Inl e
           | Inr later \<Rightarrow> Inr (case found of None \<Rightarrow> later | Some p \<Rightarrow> p # later)))"

text \<open>
  The set \<open>edges_to_consider\<close>, listed without repetition. Python iterates a set in an
  order of its own; the list fixes one.
\<close>

definition edges_to_consider ::
  "collaborators \<Rightarrow> region \<Rightarrow> error + (memlet_edge \<times> nat) list" where
  "edges_to_consider ext graph =
     (case collect_edges ext graph (edges graph) of
        Inl e \<Rightarrow> Inl e
      | Inr found \<Rightarrow> Inr (remdups found))"

definition maps_to_consider :: "(memlet_edge \<times> nat) list \<Rightarrow> nat list" where
  "maps_to_consider etc = remdups (map snd etc)"

text \<open>The names in \<open>conflicts\<close> for one map entry, and \<open>nonconflicted_dims\<close>.\<close>

definition conflicts :: "collaborators \<Rightarrow> (memlet_edge \<times> nat) list \<Rightarrow> nat \<Rightarrow> string list" where
  "conflicts ext etc mapentry =
     concat (map (\<lambda>(edge, me). if me \<noteq> mapentry then []
                                else write_conflicted_map_params ext mapentry edge) etc)"

definition nonconflicted_dims ::
  "collaborators \<Rightarrow> region \<Rightarrow> (memlet_edge \<times> nat) list \<Rightarrow> nat \<Rightarrow> string list" where
  "nonconflicted_dims ext graph etc mapentry =
     filter (\<lambda>p. p \<notin> set (conflicts ext etc mapentry)) (params (maps graph mapentry))"

definition extract_dims ::
  "collaborators \<Rightarrow> region \<Rightarrow> (memlet_edge \<times> nat) list \<Rightarrow> nat \<Rightarrow> nat list" where
  "extract_dims ext graph etc mapentry =
     filter (\<lambda>i. params (maps graph mapentry) ! i \<in> set (nonconflicted_dims ext graph etc mapentry))
       [0 ..< length (params (maps graph mapentry))]"

text \<open>\<^verbatim>\<open>dt._prod\<close>: the product of a sequence, from 1.\<close>

definition prod_sizes :: "symbolic \<Rightarrow> size list \<Rightarrow> size" where
  "prod_sizes sy sizes = foldl (size_mul sy) (Num 1) sizes"

definition dims_sizes :: "size list \<Rightarrow> nat list \<Rightarrow> size list" where
  "dims_sizes sizes dims = map snd (filter (\<lambda>(i, s). i \<in> set dims) (enumerate 0 sizes))"

text \<open>
  One iteration of the loop over \<open>maps_to_consider\<close>, on \<open>transformed\<close> and the events
  so far.
\<close>

definition extract_step ::
  "collaborators \<Rightarrow> int \<Rightarrow> region \<Rightarrow> (memlet_edge \<times> nat) list \<Rightarrow> nat
    \<Rightarrow> nat list \<times> tiler_event list \<Rightarrow> nat list \<times> tiler_event list" where
  "extract_step ext tile_size graph etc mapentry acc =
     (if nonconflicted_dims ext graph etc mapentry \<noteq> [] then
        (let dims = extract_dims ext graph etc mapentry in
         if size_lt (symbolics ext)
              (prod_sizes (symbolics ext) (dims_sizes (range_size (maps graph mapentry)) dims))
              tile_size = Definitely True
         then acc
         else (fst acc @ [mapentry], snd acc @ [Extract_map_dims mapentry dims]))
      else acc)"

fun extract_loop ::
  "collaborators \<Rightarrow> int \<Rightarrow> region \<Rightarrow> (memlet_edge \<times> nat) list \<Rightarrow> nat list
    \<Rightarrow> nat list \<times> tiler_event list \<Rightarrow> nat list \<times> tiler_event list" where
  "extract_loop ext tile_size graph etc [] acc = acc"
| "extract_loop ext tile_size graph etc (mapentry # rest) acc =
     extract_loop ext tile_size graph etc rest
       (extract_step ext tile_size graph etc mapentry acc)"

text \<open>One iteration of the loop over the out-edges of the exit of a tiled map.\<close>

definition accumulate_edge ::
  "collaborators \<Rightarrow> region \<Rightarrow> nat \<Rightarrow> memlet_edge \<Rightarrow> error + tiler_event list" where
  "accumulate_edge ext graph mapentry e =
     (case arrays graph (data e) of
        None \<Rightarrow> Inl KeyError
      | Some desc \<Rightarrow>
          if is_stream desc then
            (case memlet_path ext e of
               [] \<Rightarrow> Inl IndexError
             | first # others \<Rightarrow>
                 if \<not> is_Tasklet (src first) \<or> length (first # others) \<noteq> 3 then Inr []
                 else Inr [StreamTransient mapentry (src first)])
          else
            (if is_empty e \<or> wcr e = None \<or> wcr_nonatomic e
                \<or> (dst_subset e \<noteq> None \<and> dst_subset e \<noteq> Some (Num 0) \<and> dynamic e)
             then Inr []
             else
               (case wcr e of
                  None \<Rightarrow> Inr []
                | Some w \<Rightarrow>
                    (let redtype = detect_reduction_type ext w in
                     case reduction_identity ext (dtype desc) redtype of
                       None \<Rightarrow> Inr []
                     | Some identity \<Rightarrow>
                         Inr [AccumulateTransient mapentry (data e) identity]))))"

fun accumulate_edges ::
  "collaborators \<Rightarrow> region \<Rightarrow> nat \<Rightarrow> memlet_edge list \<Rightarrow> error + tiler_event list" where
  "accumulate_edges ext graph mapentry [] = Inr []"
| "accumulate_edges ext graph mapentry (e # rest) =
     (case accumulate_edge ext graph mapentry e of
        Inl err \<Rightarrow> Inl err
      | Inr evs \<Rightarrow>
          (case accumulate_edges ext graph mapentry rest of
             Inl err \<Rightarrow> Inl err
           | Inr later \<Rightarrow> Inr (evs @ later)))"

text \<open>The state of the second loop: the store of maps, \<open>transformed\<close>, the events so far.\<close>

record tiler_state =
  maps_now :: "nat \<Rightarrow> map_scope"
  transformed :: "nat list"
  trace :: "tiler_event list"

text \<open>
  One iteration of the loop over \<open>edges_to_consider\<close>. The test on the sizes is
  \<^verbatim>\<open>all((s < tile_size) == True for s in mapentry.map.range.size())\<close>.
\<close>

definition tile_step ::
  "collaborators \<Rightarrow> config \<Rightarrow> region \<Rightarrow> memlet_edge \<times> nat \<Rightarrow> tiler_state \<Rightarrow> error + tiler_state" where
  "tile_step ext cfg graph em st =
     (let mapentry = snd em; tile_size = autotile_size cfg in
      if mapentry \<in> set (transformed st) then Inr st
      else if list_all (\<lambda>s. size_lt (symbolics ext) s tile_size = Definitely True)
                (range_size (maps_now st mapentry))
      then Inr (st\<lparr>maps_now := (maps_now st)
                      (mapentry := (maps_now st mapentry)\<lparr>schedule := Sequential\<rparr>),
                  transformed := transformed st @ [mapentry],
                  trace := trace st
                    @ (if debugprint cfg then [Print_Making_sequential mapentry] else [])\<rparr>)
      else
        (case accumulate_edges ext graph mapentry (out_edges_of_exit ext mapentry) of
           Inl err \<Rightarrow> Inl err
         | Inr evs \<Rightarrow>
             Inr (st\<lparr>transformed := transformed st @ [mapentry],
                     trace := trace st @ MapTiling mapentry tile_size # evs\<rparr>)))"

fun tile_loop ::
  "collaborators \<Rightarrow> config \<Rightarrow> region \<Rightarrow> (memlet_edge \<times> nat) list \<Rightarrow> tiler_state
    \<Rightarrow> error + tiler_state" where
  "tile_loop ext cfg graph [] st = Inr st"
| "tile_loop ext cfg graph (em # rest) st =
     (case tile_step ext cfg graph em st of
        Inl err \<Rightarrow> Inl err
      | Inr st' \<Rightarrow> tile_loop ext cfg graph rest st')"

text \<open>
  \<^verbatim>\<open>tile_wcrs\<close> on a state or a subgraph of a state: the region afterwards and the
  events, or the exception.
\<close>

definition tile_wcrs_state ::
  "collaborators \<Rightarrow> config \<Rightarrow> region \<Rightarrow> bool option \<Rightarrow> error + region \<times> tiler_event list" where
  "tile_wcrs_state ext cfg graph prefer_partial_parallelism =
     (case edges_to_consider ext graph of
        Inl err \<Rightarrow> Inl err
      | Inr etc \<Rightarrow>
          (let tile_size = autotile_size cfg;
               prefer = (case prefer_partial_parallelism of
                           None \<Rightarrow> autotile_partial_parallelism cfg
                         | Some b \<Rightarrow> b);
               extracted = (if prefer
                            then extract_loop ext tile_size graph etc (maps_to_consider etc) ([], [])
                            else ([], []))
           in case tile_loop ext cfg graph etc
                     \<lparr>maps_now = maps graph, transformed = fst extracted, trace = snd extracted\<rparr> of
                Inl err \<Rightarrow> Inl err
              | Inr st \<Rightarrow>
                  Inr (graph\<lparr>maps := maps_now st\<rparr>,
                       trace st
                       @ (if debugprint cfg \<and> length (transformed st) > 0
                          then [Print_Optimized (length (transformed st))] else []))))"

text \<open>
  What \<^verbatim>\<open>tile_wcrs\<close> is given: an SDFG or a subgraph of one (with the states that
  \<^verbatim>\<open>graph_or_subgraph.nodes()\<close> lists), a state or a subgraph of one, or anything else.
\<close>

datatype tile_target =
    On_SDFG "region list"
  | On_Subgraph_Of_SDFG "region list"
  | On_State region
  | On_Subgraph_Of_State region
  | On_Other

text \<open>The loop over the states: each state is tiled by \<^verbatim>\<open>tile_wcrs(state, validate_all)\<close>.\<close>

fun tile_states ::
  "collaborators \<Rightarrow> config \<Rightarrow> region list \<Rightarrow> bool
    \<Rightarrow> error + (region \<times> tiler_event list) list" where
  "tile_states ext cfg [] validate = Inr []"
| "tile_states ext cfg (state # rest) validate =
     (case tile_wcrs_state ext cfg state None of
        Inl err \<Rightarrow> Inl err
      | Inr result \<Rightarrow>
          (case tile_states ext cfg rest validate of
             Inl err \<Rightarrow> Inl err
           | Inr later \<Rightarrow> Inr (result # later)))"

fun tile_wcrs ::
  "collaborators \<Rightarrow> config \<Rightarrow> tile_target \<Rightarrow> bool \<Rightarrow> bool option
    \<Rightarrow> error + (region \<times> tiler_event list) list" where
  "tile_wcrs ext cfg (On_SDFG states) validate prefer_partial_parallelism =
     tile_states ext cfg states validate"
| "tile_wcrs ext cfg (On_Subgraph_Of_SDFG states) validate prefer_partial_parallelism =
     tile_states ext cfg states validate"
| "tile_wcrs ext cfg (On_State graph) validate prefer_partial_parallelism =
     (case tile_wcrs_state ext cfg graph prefer_partial_parallelism of
        Inl err \<Rightarrow> Inl err
      | Inr result \<Rightarrow> Inr [result])"
| "tile_wcrs ext cfg (On_Subgraph_Of_State graph) validate prefer_partial_parallelism =
     (case tile_wcrs_state ext cfg graph prefer_partial_parallelism of
        Inl err \<Rightarrow> Inl err
      | Inr result \<Rightarrow> Inr [result])"
| "tile_wcrs ext cfg On_Other validate prefer_partial_parallelism = Inl TypeError"


section \<open>Specification predicates\<close>

text \<open>The warnings are those of the nodes that are not ignored and support no entry, in order.\<close>

fun unsupported :: "string list \<Rightarrow> string list \<Rightarrow> call_node \<Rightarrow> bool" where
  "unsupported prio ig Non_Library_Node = False"
| "unsupported prio ig (Library_Node n) =
     (node_type n \<notin> set ig \<and> set prio \<inter> set (implementations n) = {})"

fun node_name :: "call_node \<Rightarrow> string" where
  "node_name Non_Library_Node = []"
| "node_name (Library_Node n) = name n"


text \<open>
  The reduction identity of an edge: that of the element type of its array and of the
  reduction type of its write-conflict resolution; \<open>None\<close> when the edge has no
  resolution, its array is not in \<open>arrays\<close>, or no identity is known.
\<close>

definition identity_of :: "collaborators \<Rightarrow> region \<Rightarrow> memlet_edge \<Rightarrow> string option" where
  "identity_of ext graph e =
     (case wcr e of
        None \<Rightarrow> None
      | Some w \<Rightarrow>
          (case arrays graph (data e) of
             None \<Rightarrow> None
           | Some desc \<Rightarrow> reduction_identity ext (dtype desc) (detect_reduction_type ext w)))"

text \<open>The test of the sequential shortcut, on the sizes of a map.\<close>

definition small_map :: "symbolic \<Rightarrow> int \<Rightarrow> map_scope \<Rightarrow> bool" where
  "small_map sy t m0 = list_all (\<lambda>s. size_lt sy s t = Definitely True) (range_size m0)"



text \<open>
  An accumulation event is justified when an out-edge of the exit of its map has its
  array and its identity. The events of the first phase are those of extraction.
\<close>

fun justified :: "collaborators \<Rightarrow> region \<Rightarrow> tiler_event \<Rightarrow> bool" where
  "justified ext g (AccumulateTransient m a idv) =
     list_ex (\<lambda>e. data e = a \<and> identity_of ext g e = Some idv) (out_edges_of_exit ext m)"
| "justified ext g ev = True"

fun rewrite_free :: "tiler_event \<Rightarrow> bool" where
  "rewrite_free (Extract_map_dims m ds) = True"
| "rewrite_free ev = False"

definition extract_inv :: "nat list \<times> tiler_event list \<Rightarrow> bool" where
  "extract_inv acc =
     (list_all rewrite_free (snd acc)
      \<and> (\<forall>m. (m \<in> set (fst acc)) = (\<exists>ds. Extract_map_dims m ds \<in> set (snd acc))))"

text \<open>The result of the first phase of \<open>tile_wcrs_state\<close>.\<close>

definition extracted ::
  "collaborators \<Rightarrow> config \<Rightarrow> region \<Rightarrow> bool option \<Rightarrow> (memlet_edge \<times> nat) list
    \<Rightarrow> nat list \<times> tiler_event list" where
  "extracted ext cfg g p etc =
     (if (case p of None \<Rightarrow> autotile_partial_parallelism cfg | Some b \<Rightarrow> b)
      then extract_loop ext (autotile_size cfg) g etc (maps_to_consider etc) ([], [])
      else ([], []))"

text \<open>The schedule of the map \<open>m\<close> and the events of a run.\<close>

definition outcome_of ::
  "nat \<Rightarrow> error + region \<times> tiler_event list \<Rightarrow> error + ScheduleType \<times> tiler_event list" where
  "outcome_of m run =
     (case run of Inl err \<Rightarrow> Inl err | Inr (graph, tr) \<Rightarrow> Inr (schedule (maps graph m), tr))"

section \<open>Example programs\<close>

text \<open>
  A state with one map, number 0, around a tasklet that adds into the array \<open>A\<close>
  through a write-conflict resolution; the map conflicts in its parameter \<open>i\<close>. SymPy
  is taken as deciding nothing about symbolic sizes.
\<close>

definition example_symbolic :: symbolic where
  "example_symbolic =
     \<lparr>sym_issymbolic = (\<lambda>x c. True), sym_evaluate = (\<lambda>x c. Sym x),
      sym_lt = (\<lambda>x t. Relational), sym_le = (\<lambda>x t. Relational),
      sym_mul = (\<lambda>a b. Sym ''product'')\<rparr>"

definition example_edge :: memlet_edge where
  "example_edge =
     \<lparr>eid = 0, src = Tasklet 1, dst = MapExit 0, data = ''A'',
      wcr = Some ''lambda a, b: a + b'', is_empty = False, wcr_nonatomic = False,
      dst_subset = None, dynamic = False\<rparr>"

definition example_out_edge :: memlet_edge where
  "example_out_edge =
     \<lparr>eid = 1, src = MapExit 0, dst = AccessNode 2, data = ''A'',
      wcr = Some ''lambda a, b: a + b'', is_empty = False, wcr_nonatomic = False,
      dst_subset = None, dynamic = False\<rparr>"

definition example_collaborators :: collaborators where
  "example_collaborators =
     \<lparr>is_write_conflicted_with_reason = (\<lambda>g e. Some (MapEntry 0)),
      detect_reduction_type = (\<lambda>w. ''Sum''),
      reduction_identity = (\<lambda>d r. if r = ''Sum'' then Some ''0'' else None),
      write_conflicted_map_params = (\<lambda>m e. [''i'']),
      out_edges_of_exit = (\<lambda>m. [example_out_edge]),
      memlet_path = (\<lambda>e. [e]),
      symbolics = example_symbolic\<rparr>"

definition example_region :: "string list \<Rightarrow> size list \<Rightarrow> region" where
  "example_region ps sizes =
     \<lparr>arrays = [''A'' \<mapsto> \<lparr>is_stream = False, dtype = ''float64'', transient = False,
                          storage = Default, lifetime = Scope, total_size = Num 1\<rparr>],
      nodes = [MapEntry 0, Tasklet 1, MapExit 0, AccessNode 2],
      edges = [example_edge, example_out_edge],
      maps = (\<lambda>m. \<lparr>params = ps, range_size = sizes, schedule = Other_Schedule\<rparr>)\<rparr>"

definition example_config :: "int \<Rightarrow> bool \<Rightarrow> config" where
  "example_config t p = \<lparr>autotile_size = t, autotile_partial_parallelism = p, debugprint = False\<rparr>"

text \<open>The same state without the write-conflict resolutions.\<close>

definition plain_region :: region where
  "plain_region =
     \<lparr>arrays = [''A'' \<mapsto> \<lparr>is_stream = False, dtype = ''float64'', transient = False,
                          storage = Default, lifetime = Scope, total_size = Num 1\<rparr>],
      nodes = [MapEntry 0, Tasklet 1, MapExit 0, AccessNode 2],
      edges = [example_edge\<lparr>wcr := None\<rparr>, example_out_edge\<lparr>wcr := None\<rparr>],
      maps = (\<lambda>m. \<lparr>params = [''i''], range_size = [Num 1000], schedule = Other_Schedule\<rparr>)\<rparr>"

section \<open>Properties of the implementation selector\<close>

text \<open>
  C6. \<open>find_fast_library\<close> on a GPU device is the fixed list cuBLAS, CUB, pure, the
  generic entry last. On a CPU device it is at most one vendor library followed by the
  generic entry: MKL exactly when its probe succeeds, OpenBLAS exactly when its probe
  succeeds and MKL's does not, so no vendor library whose probe reports false is listed.
  On any other device it is the generic entry alone.
\<close>

theorem find_fast_library_preference:
  "find_fast_library env GPU = [''cuBLAS'', ''CUB'', ''pure'']
   \<and> (\<exists>vendor. find_fast_library env CPU = vendor @ [''pure'']
         \<and> length vendor \<le> 1
         \<and> (''MKL'' \<in> set vendor) = mkl_is_installed env
         \<and> (''OpenBLAS'' \<in> set vendor) = (openblas_is_installed env \<and> \<not> mkl_is_installed env)
         \<and> set vendor \<subseteq> {''MKL'', ''OpenBLAS''})
   \<and> (d \<noteq> GPU \<longrightarrow> d \<noteq> CPU \<longrightarrow> find_fast_library env d = [''pure''])"
proof (intro conjI)
  show "find_fast_library env GPU = [''cuBLAS'', ''CUB'', ''pure'']"
    by (simp add: find_fast_library_def)
next
  let ?v = "if mkl_is_installed env then [''MKL'']
            else if openblas_is_installed env then [''OpenBLAS''] else []"
  have "find_fast_library env CPU = ?v @ [''pure'']"
    by (simp add: find_fast_library_def)
  moreover have "length ?v \<le> 1" by simp
  moreover have "(''MKL'' \<in> set ?v) = mkl_is_installed env" by simp
  moreover have "(''OpenBLAS'' \<in> set ?v) = (openblas_is_installed env \<and> \<not> mkl_is_installed env)"
    by simp
  moreover have "set ?v \<subseteq> {''MKL'', ''OpenBLAS''}" by auto
  ultimately show "\<exists>vendor. find_fast_library env CPU = vendor @ [''pure'']
         \<and> length vendor \<le> 1
         \<and> (''MKL'' \<in> set vendor) = mkl_is_installed env
         \<and> (''OpenBLAS'' \<in> set vendor) = (openblas_is_installed env \<and> \<not> mkl_is_installed env)
         \<and> set vendor \<subseteq> {''MKL'', ''OpenBLAS''}"
    by blast
next
  show "d \<noteq> GPU \<longrightarrow> d \<noteq> CPU \<longrightarrow> find_fast_library env d = [''pure'']"
    by (simp add: find_fast_library_def)
qed

theorem find_fast_library_preference_witness:
  "find_fast_library \<lparr>mkl_is_installed = False, openblas_is_installed = True\<rparr> FPGA = [''pure'']
   \<and> find_fast_library \<lparr>mkl_is_installed = False, openblas_is_installed = True\<rparr> CPU
       = [''OpenBLAS'', ''pure'']"
  using find_fast_library_preference
    [of "\<lparr>mkl_is_installed = False, openblas_is_installed = True\<rparr>" FPGA]
  by (simp add: find_fast_library_def)

text \<open>
  The inner loop breaks at the first entry of the preference list that the node
  supports, and falls through exactly when the node supports none.
\<close>

lemma first_supported_Some:
  "first_supported prio impls = Some impl \<Longrightarrow>
     \<exists>k < length prio. prio ! k = impl \<and> impl \<in> set impls \<and> (\<forall>j < k. prio ! j \<notin> set impls)"
proof (induction prio)
  case Nil
  then show ?case by simp
next
  case (Cons p prio)
  show ?case
  proof (cases "p \<in> set impls")
    case True
    with Cons.prems have "impl = p" by simp
    with True have "(p # prio) ! 0 = impl \<and> impl \<in> set impls
        \<and> (\<forall>j < 0. (p # prio) ! j \<notin> set impls)" by simp
    then show ?thesis by blast
  next
    case False
    with Cons.prems have "first_supported prio impls = Some impl" by simp
    from Cons.IH [OF this] obtain k where k: "k < length prio" "prio ! k = impl"
      "impl \<in> set impls" "\<forall>j < k. prio ! j \<notin> set impls" by blast
    have "\<forall>j < Suc k. (p # prio) ! j \<notin> set impls"
    proof (intro allI impI)
      fix j assume "j < Suc k"
      then show "(p # prio) ! j \<notin> set impls"
        using False k(4) by (cases j) auto
    qed
    with k have "Suc k < length (p # prio) \<and> (p # prio) ! Suc k = impl \<and> impl \<in> set impls
        \<and> (\<forall>j < Suc k. (p # prio) ! j \<notin> set impls)" by simp
    then show ?thesis by blast
  qed
qed

lemma first_supported_None:
  "(first_supported prio impls = None) = (set prio \<inter> set impls = {})"
  by (induction prio) auto

lemma set_implementations_length:
  "length (fst (set_implementations prio ig ns)) = length ns"
  by (induction prio ig ns rule: set_implementations.induct)
     (auto split: prod.splits option.splits)

lemma set_implementations_nth:
  "i < length ns \<Longrightarrow>
   fst (set_implementations prio ig ns) ! i =
     (case ns ! i of
        Non_Library_Node \<Rightarrow> Non_Library_Node
      | Library_Node n \<Rightarrow>
          if node_type n \<notin> set ig then
            (case first_supported prio (implementations n) of
               Some impl \<Rightarrow> Library_Node (n\<lparr>implementation := Some impl\<rparr>)
             | None \<Rightarrow> Library_Node n)
          else Library_Node n)"
proof (induction prio ig ns arbitrary: i rule: set_implementations.induct)
  case (1 prio ig)
  then show ?case by simp
next
  case (2 prio ig ns)
  then show ?case by (cases i) (auto split: prod.splits)
next
  case (3 prio ig n ns)
  then show ?case by (cases i) (auto split: prod.splits option.splits)
qed

lemma set_implementations_warnings:
  "snd (set_implementations prio ig ns) =
     map (\<lambda>n. Warn (node_name n)) (filter (unsupported prio ig) ns)"
proof (induction prio ig ns rule: set_implementations.induct)
  case (1 prio ig)
  then show ?case by simp
next
  case (2 prio ig ns)
  then show ?case by (auto split: prod.splits)
next
  case (3 prio ig n ns)
  then show ?case
    by (cases "first_supported prio (implementations n)")
       (auto split: prod.splits simp: first_supported_None [symmetric])
qed

text \<open>
  C7. The second loop of \<open>set_fast_implementations\<close> returns a node for every node it
  was given. A library node whose type is not ignored gets the first entry of the
  preference list that it supports; if it supports none it is left as it was (the
  implementation and the default implementation untouched) and a warning with its name
  is emitted. The loop always completes: the warnings are exactly those of the
  unsupported nodes, one each, and the nodes after such a node are processed as well.
\<close>

theorem set_implementations_second_pass:
  "length (fst (set_implementations prio ig ns)) = length ns
   \<and> snd (set_implementations prio ig ns)
       = map (\<lambda>n. Warn (node_name n)) (filter (unsupported prio ig) ns)
   \<and> (\<forall>i n. i < length ns \<and> ns ! i = Library_Node n \<and> node_type n \<notin> set ig \<longrightarrow>
        (\<exists>k < length prio. prio ! k \<in> set (implementations n)
            \<and> (\<forall>j < k. prio ! j \<notin> set (implementations n))
            \<and> fst (set_implementations prio ig ns) ! i
                = Library_Node (n\<lparr>implementation := Some (prio ! k)\<rparr>))
        \<or> (set prio \<inter> set (implementations n) = {}
            \<and> fst (set_implementations prio ig ns) ! i = Library_Node n
            \<and> Warn (name n) \<in> set (snd (set_implementations prio ig ns))))"
proof (intro conjI allI impI)
  show "length (fst (set_implementations prio ig ns)) = length ns"
    by (rule set_implementations_length)
next
  show "snd (set_implementations prio ig ns)
       = map (\<lambda>n. Warn (node_name n)) (filter (unsupported prio ig) ns)"
    by (rule set_implementations_warnings)
next
  fix i n
  assume a: "i < length ns \<and> ns ! i = Library_Node n \<and> node_type n \<notin> set ig"
  then have nth: "fst (set_implementations prio ig ns) ! i =
      (case first_supported prio (implementations n) of
         Some impl \<Rightarrow> Library_Node (n\<lparr>implementation := Some impl\<rparr>)
       | None \<Rightarrow> Library_Node n)"
    by (simp add: set_implementations_nth)
  show "(\<exists>k < length prio. prio ! k \<in> set (implementations n)
            \<and> (\<forall>j < k. prio ! j \<notin> set (implementations n))
            \<and> fst (set_implementations prio ig ns) ! i
                = Library_Node (n\<lparr>implementation := Some (prio ! k)\<rparr>))
        \<or> (set prio \<inter> set (implementations n) = {}
            \<and> fst (set_implementations prio ig ns) ! i = Library_Node n
            \<and> Warn (name n) \<in> set (snd (set_implementations prio ig ns)))"
  proof (cases "first_supported prio (implementations n)")
    case None
    then have empty: "set prio \<inter> set (implementations n) = {}"
      by (simp add: first_supported_None)
    from a have "Library_Node n \<in> set ns" by (metis nth_mem)
    with a empty have "Library_Node n \<in> set (filter (unsupported prio ig) ns)" by simp
    then have "Warn (node_name (Library_Node n))
        \<in> set (map (\<lambda>n. Warn (node_name n)) (filter (unsupported prio ig) ns))"
      unfolding set_map by (rule imageI)
    then have "Warn (name n) \<in> set (snd (set_implementations prio ig ns))"
      by (simp add: set_implementations_warnings)
    with None nth empty show ?thesis by simp
  next
    case (Some impl)
    from first_supported_Some [OF this] obtain k where
      "k < length prio" "prio ! k = impl" "impl \<in> set (implementations n)"
      "\<forall>j < k. prio ! j \<notin> set (implementations n)" by blast
    with Some nth show ?thesis by auto
  qed
qed

theorem set_implementations_second_pass_witness:
  "fst (set_implementations [''MKL'', ''pure''] [''Reduce'']
      [Library_Node \<lparr>name = ''gemm'', node_type = ''Gemm'', implementations = [''pure'', ''MKL''],
         implementation = None, default_implementation = None\<rparr>,
       Library_Node \<lparr>name = ''fft'', node_type = ''FFT'', implementations = [''cuFFT''],
         implementation = None, default_implementation = Some ''cuFFT''\<rparr>,
       Non_Library_Node,
       Library_Node \<lparr>name = ''dot'', node_type = ''Dot'', implementations = [''pure''],
         implementation = None, default_implementation = None\<rparr>]) ! 1
     = Library_Node \<lparr>name = ''fft'', node_type = ''FFT'', implementations = [''cuFFT''],
         implementation = None, default_implementation = Some ''cuFFT''\<rparr>
   \<and> snd (set_implementations [''MKL'', ''pure''] [''Reduce'']
      [Library_Node \<lparr>name = ''gemm'', node_type = ''Gemm'', implementations = [''pure'', ''MKL''],
         implementation = None, default_implementation = None\<rparr>,
       Library_Node \<lparr>name = ''fft'', node_type = ''FFT'', implementations = [''cuFFT''],
         implementation = None, default_implementation = Some ''cuFFT''\<rparr>,
       Non_Library_Node,
       Library_Node \<lparr>name = ''dot'', node_type = ''Dot'', implementations = [''pure''],
         implementation = None, default_implementation = None\<rparr>]) = [Warn ''fft'']
   \<and> fst (set_implementations [''MKL'', ''pure''] [''Reduce'']
      [Library_Node \<lparr>name = ''gemm'', node_type = ''Gemm'', implementations = [''pure'', ''MKL''],
         implementation = None, default_implementation = None\<rparr>,
       Library_Node \<lparr>name = ''fft'', node_type = ''FFT'', implementations = [''cuFFT''],
         implementation = None, default_implementation = Some ''cuFFT''\<rparr>,
       Non_Library_Node,
       Library_Node \<lparr>name = ''dot'', node_type = ''Dot'', implementations = [''pure''],
         implementation = None, default_implementation = None\<rparr>]) ! 3
     = Library_Node \<lparr>name = ''dot'', node_type = ''Dot'', implementations = [''pure''],
         implementation = Some ''pure'', default_implementation = None\<rparr>"
  using set_implementations_second_pass [of "[''MKL'', ''pure'']" "[''Reduce'']"
      "[Library_Node \<lparr>name = ''gemm'', node_type = ''Gemm'', implementations = [''pure'', ''MKL''],
         implementation = None, default_implementation = None\<rparr>,
       Library_Node \<lparr>name = ''fft'', node_type = ''FFT'', implementations = [''cuFFT''],
         implementation = None, default_implementation = Some ''cuFFT''\<rparr>,
       Non_Library_Node,
       Library_Node \<lparr>name = ''dot'', node_type = ''Dot'', implementations = [''pure''],
         implementation = None, default_implementation = None\<rparr>]"]
  by simp

section \<open>Properties of the storage reclassifier\<close>

lemma move_arrays_length: "length (fst (move_arrays sy t arrs)) = length arrs"
  by (induction sy t arrs rule: move_arrays.induct) (auto split: prod.splits)

lemma move_arrays_nth:
  "i < length arrs \<Longrightarrow> arrs ! i = (sd, aname, array) \<Longrightarrow>
   fst (move_arrays sy t arrs) ! i = (sd, aname, fst (move_array sy t sd array))"
proof (induction sy t arrs arbitrary: i rule: move_arrays.induct)
  case (1 sy t)
  then show ?case by simp
next
  case (2 sy t sd' aname' array' rest)
  then show ?case by (cases i) (auto split: prod.splits)
qed

lemma move_array_result:
  "fst (move_array sy t sd array) =
     (if transient array \<and> \<not> is_stream array \<and> storage array = Default \<and> lifetime array = Scope
         \<and> \<not> issymbolic sy (total_size array) sd
         \<and> size_le sy (evaluate sy (total_size array) sd) t = Definitely True
      then array\<lparr>storage := Register\<rparr> else array)"
  by (auto simp: move_array_def Let_def split: truth.splits bool.splits)

text \<open>
  C8. \<open>move_small_arrays_to_stack\<close> returns a descriptor for every descriptor that
  \<open>arrays_recursive\<close> yields, with the same constants and name. The descriptor has its
  storage set to \<open>Register\<close> when it is transient, not a stream, of default storage and
  scope lifetime, and its total size is not symbolic and compares as at most the tile
  size; otherwise (a comparison that is false or that SymPy leaves undecided included)
  it is returned as it was. The function has no error result. For a concrete total size
  \<open>n\<close> the size test is \<open>n \<le> autotile_size\<close>, equality included.
\<close>

theorem move_small_arrays_to_stack_exact:
  "length (fst (move_small_arrays_to_stack sy cfg arrs)) = length arrs
   \<and> (\<forall>i sd aname array. i < length arrs \<and> arrs ! i = (sd, aname, array) \<longrightarrow>
        fst (move_small_arrays_to_stack sy cfg arrs) ! i =
          (sd, aname,
           if transient array \<and> \<not> is_stream array \<and> storage array = Default
              \<and> lifetime array = Scope
              \<and> \<not> issymbolic sy (total_size array) sd
              \<and> size_le sy (evaluate sy (total_size array) sd) (autotile_size cfg)
                  = Definitely True
           then array\<lparr>storage := Register\<rparr> else array))
   \<and> (\<forall>n sd. \<not> issymbolic sy (Num n) sd
        \<and> (size_le sy (evaluate sy (Num n) sd) (autotile_size cfg) = Definitely True)
            = (n \<le> autotile_size cfg))"
proof (intro conjI allI impI)
  show "length (fst (move_small_arrays_to_stack sy cfg arrs)) = length arrs"
    by (simp add: move_small_arrays_to_stack_def move_arrays_length split: prod.splits)
       (metis fst_conv move_arrays_length)
next
  fix i sd aname array
  assume "i < length arrs \<and> arrs ! i = (sd, aname, array)"
  then have "fst (move_arrays sy (autotile_size cfg) arrs) ! i
      = (sd, aname, fst (move_array sy (autotile_size cfg) sd array))"
    by (simp add: move_arrays_nth)
  moreover have "fst (move_small_arrays_to_stack sy cfg arrs)
      = fst (move_arrays sy (autotile_size cfg) arrs)"
    by (simp add: move_small_arrays_to_stack_def split: prod.splits)
  ultimately show "fst (move_small_arrays_to_stack sy cfg arrs) ! i =
          (sd, aname,
           if transient array \<and> \<not> is_stream array \<and> storage array = Default
              \<and> lifetime array = Scope
              \<and> \<not> issymbolic sy (total_size array) sd
              \<and> size_le sy (evaluate sy (total_size array) sd) (autotile_size cfg)
                  = Definitely True
           then array\<lparr>storage := Register\<rparr> else array)"
    by (simp only: move_array_result)
next
  fix n sd
  show "\<not> issymbolic sy (Num n) sd" by simp
next
  fix n sd
  show "(size_le sy (evaluate sy (Num n) sd) (autotile_size cfg) = Definitely True)
            = (n \<le> autotile_size cfg)" by simp
qed

theorem move_small_arrays_to_stack_exact_witness:
  "fst (move_small_arrays_to_stack
      \<lparr>sym_issymbolic = (\<lambda>x c. True), sym_evaluate = (\<lambda>x c. Sym x),
        sym_lt = (\<lambda>x t. Relational), sym_le = (\<lambda>x t. Relational), sym_mul = (\<lambda>a b. Sym ''prod'')\<rparr>
      \<lparr>autotile_size = 128, autotile_partial_parallelism = False, debugprint = False\<rparr>
      [(Map.empty, ''tmp'',
        \<lparr>is_stream = False, dtype = ''float64'', transient = True, storage = Default,
         lifetime = Scope, total_size = Num 128\<rparr>),
       (Map.empty, ''buf'',
        \<lparr>is_stream = False, dtype = ''float64'', transient = True, storage = Default,
         lifetime = Scope, total_size = Num 129\<rparr>)]) ! 0
   = (Map.empty, ''tmp'',
        \<lparr>is_stream = False, dtype = ''float64'', transient = True, storage = Register,
         lifetime = Scope, total_size = Num 128\<rparr>)"
  using move_small_arrays_to_stack_exact
    [of "\<lparr>sym_issymbolic = (\<lambda>x c. True), sym_evaluate = (\<lambda>x c. Sym x),
        sym_lt = (\<lambda>x t. Relational), sym_le = (\<lambda>x t. Relational), sym_mul = (\<lambda>a b. Sym ''prod'')\<rparr>"
      "\<lparr>autotile_size = 128, autotile_partial_parallelism = False, debugprint = False\<rparr>"
      "[(Map.empty, ''tmp'',
        \<lparr>is_stream = False, dtype = ''float64'', transient = True, storage = Default,
         lifetime = Scope, total_size = Num 128\<rparr>),
       (Map.empty, ''buf'',
        \<lparr>is_stream = False, dtype = ''float64'', transient = True, storage = Default,
         lifetime = Scope, total_size = Num 129\<rparr>)]"]
  by simp

section \<open>Properties of the greedy fusion engine\<close>

text \<open>
  Every call of \<open>greedy_fuse\<close> passes \<open>validate_all\<close> on as it is, so an invocation
  without it never reaches \<^verbatim>\<open>graph.validate()\<close>, whatever it is given.
\<close>

lemma no_graph_validate:
  "\<not> validate_all a \<Longrightarrow> Graph_validate \<notin> set (fst (greedy_fuse v a))"
  "\<not> validate_all a \<Longrightarrow> Graph_validate \<notin> set (fst (fuse_states vs a))"
  "\<not> validate_all a \<Longrightarrow> Graph_validate \<notin> set (fst (fuse_candidates cs a))"
  "\<not> validate_all a \<Longrightarrow> Graph_validate \<notin> set (fst (fuse_nested ns a))"
proof (induction v a and vs a and cs a and ns a rule: greedy_fuse_fuse_states_fuse_candidates_fuse_nested.induct)
  case (1 states a)
  then show ?case by (auto split: prod.splits)
next
  case (2 cs ns a)
  obtain t1 e1 n where fc: "fuse_candidates cs a = (t1, e1, n)" by (cases "fuse_candidates cs a")
  obtain t2 e2 where fn: "fuse_nested ns a = (t2, e2)" by (cases "fuse_nested ns a")
  have 1: "Graph_validate \<notin> set t1" using "2.IH"(1) "2.prems" fc by simp
  have 2: "e1 = None \<Longrightarrow> Graph_validate \<notin> set t2"
    using "2.IH"(2) [of t1 "(e1, n)" e1 n] "2.prems" fc fn by simp
  show ?case using 1 2 "2.prems" fc fn
    by (cases e1; cases e2) (auto simp: fuse_setup_def fuse_finish_def)
next
  case (3 cs ns a)
  obtain t1 e1 n where fc: "fuse_candidates cs a = (t1, e1, n)" by (cases "fuse_candidates cs a")
  obtain t2 e2 where fn: "fuse_nested ns a = (t2, e2)" by (cases "fuse_nested ns a")
  have 1: "Graph_validate \<notin> set t1" using "3.IH"(1) "3.prems" fc by simp
  have 2: "e1 = None \<Longrightarrow> Graph_validate \<notin> set t2"
    using "3.IH"(2) [of t1 "(e1, n)" e1 n] "3.prems" fc fn by simp
  show ?case using 1 2 "3.prems" fc fn
    by (cases e1; cases e2) (auto simp: fuse_setup_def fuse_finish_def)
next
  case (4 a)
  then show ?case by simp
next
  case (5 graph graphs a)
  let ?c = "\<lparr>validate_all = validate_all a, device = device a, recursive = recursive a, tile = tile a\<rparr>"
  obtain t1 e1 where g: "greedy_fuse graph ?c = (t1, e1)" by (cases "greedy_fuse graph ?c")
  obtain t2 e2 where fs: "fuse_states graphs a = (t2, e2)" by (cases "fuse_states graphs a")
  have 1: "Graph_validate \<notin> set t1" using "5.IH"(1) "5.prems" g by simp
  have 2: "e1 = None \<Longrightarrow> Graph_validate \<notin> set t2"
    using "5.IH"(2) [of t1 e1] "5.prems" g fs by simp
  show ?case using 1 2 g fs by (cases e1) auto
next
  case (6 a)
  then show ?case by simp
next
  case (7 map_entries body cs a)
  let ?c = "\<lparr>validate_all = validate_all a, device = CPU, recursive = True, tile = False\<rparr>"
  obtain t1 e1 where g: "greedy_fuse body ?c = (t1, e1)" by (cases "greedy_fuse body ?c")
  obtain t2 e2 n where fc: "fuse_candidates cs a = (t2, e2, n)" by (cases "fuse_candidates cs a")
  have 1: "recursive a \<Longrightarrow> map_entries \<noteq> [] \<Longrightarrow> Graph_validate \<notin> set t1"
    using "7.IH"(1) "7.prems" g by simp
  have 2: "recursive a \<Longrightarrow> map_entries \<noteq> [] \<Longrightarrow> e1 = None \<Longrightarrow> Graph_validate \<notin> set t2"
    using "7.IH"(2) [of t1 e1] "7.prems" g fc by simp
  have 3: "\<not> recursive a \<Longrightarrow> Graph_validate \<notin> set t2"
    using "7.IH"(3) "7.prems" fc by simp
  show ?case using 1 2 3 g fc by (cases e1) auto
next
  case (8 a)
  then show ?case by simp
next
  case (9 ns a)
  then show ?case by simp
next
  case (10 sdfg ns a)
  let ?c = "\<lparr>validate_all = validate_all a, device = device a, recursive = recursive a, tile = tile a\<rparr>"
  obtain t1 e1 where g: "greedy_fuse sdfg ?c = (t1, e1)" by (cases "greedy_fuse sdfg ?c")
  obtain t2 e2 where fs: "fuse_nested ns a = (t2, e2)" by (cases "fuse_nested ns a")
  have 1: "Graph_validate \<notin> set t1" using "10.IH"(1) "10.prems" g by simp
  have 2: "e1 = None \<Longrightarrow> Graph_validate \<notin> set t2"
    using "10.IH"(2) [of t1 e1] "10.prems" g fs by simp
  show ?case using 1 2 g fs by (cases e1) auto
qed


text \<open>
  C5, as the source has it. A pass over a state or a subgraph that returns ends with
  \<^verbatim>\<open>graph.validate()\<close> when \<open>validate_all\<close> is set, whether or not a fusion was
  applied; when \<open>validate_all\<close> is not set the pass makes no such call at all.
\<close>

theorem greedy_fuse_end_validation:
  "v = SDFGState cs ns \<or> v = SubgraphView cs ns \<Longrightarrow> greedy_fuse v a = (t, None) \<Longrightarrow>
     (validate_all a \<longrightarrow> t \<noteq> [] \<and> last t = Graph_validate)
     \<and> (\<not> validate_all a \<longrightarrow> Graph_validate \<notin> set t)"
proof -
  assume v: "v = SDFGState cs ns \<or> v = SubgraphView cs ns"
    and r: "greedy_fuse v a = (t, None)"
  have last: "t \<noteq> [] \<and> last t = Graph_validate" if va: "validate_all a"
  proof -
    obtain t1 e1 n where fc: "fuse_candidates cs a = (t1, e1, n)"
      by (cases "fuse_candidates cs a")
    obtain t2 e2 where fn: "fuse_nested ns a = (t2, e2)" by (cases "fuse_nested ns a")
    from v r fc fn have "e1 = None \<and> e2 = None"
      by (cases e1; cases e2) auto
    with v r fc fn have "\<exists>pre. t = pre @ fuse_finish a n" by auto
    moreover from va have "\<exists>q. fuse_finish a n = q @ [Graph_validate]"
      by (simp add: fuse_finish_def)
    ultimately obtain pre q where "t = (pre @ q) @ [Graph_validate]" by auto
    then show ?thesis by simp
  qed
  have none: "Graph_validate \<notin> set t" if "\<not> validate_all a"
    using that r no_graph_validate(1) [of a v] by simp
  from last none show ?thesis by blast
qed

theorem greedy_fuse_end_validation_witness:
  "greedy_fuse (SDFGState [Candidate [0] (SubgraphView [] [])] [])
      \<lparr>validate_all = True, device = CPU, recursive = False, tile = False\<rparr>
    = ([Apply_MapFusion_repeated True, GreedyEnumerator False, Set_allow_tiling False,
        Graph_validate], None)
   \<and> last (fst (greedy_fuse (SDFGState [Candidate [0] (SubgraphView [] [])] [])
      \<lparr>validate_all = True, device = CPU, recursive = False, tile = False\<rparr>)) = Graph_validate"
  using greedy_fuse_end_validation
    [of "SDFGState [Candidate [0] (SubgraphView [] [])] []" "[Candidate [0] (SubgraphView [] [])]" "[]"
        "\<lparr>validate_all = True, device = CPU, recursive = False, tile = False\<rparr>"
        "[Apply_MapFusion_repeated True, GreedyEnumerator False, Set_allow_tiling False,
          Graph_validate]"]
  by (simp add: fuse_setup_def fuse_finish_def)

text \<open>
  The claim C5 as it is written fails on a state with one fusible pair of maps and
  \<open>validate_all\<close> not set: \<^verbatim>\<open>sdfg.validate()\<close> follows the fusion at once, and
  no validation is made at the end of the pass although a fusion was applied.
\<close>

theorem greedy_fuse_validation_counterexample:
  "greedy_fuse (SDFGState [Candidate [0, 1] (SubgraphView [] [])] [])
      \<lparr>validate_all = False, device = CPU, recursive = False, tile = False\<rparr>
    = ([Apply_MapFusion_repeated False, GreedyEnumerator False, Set_allow_tiling False,
        CompositeFusion_apply [0, 1], Sdfg_validate, Print_SubgraphFusion 1], None)"
  by (simp add: fuse_setup_def fuse_finish_def)



section \<open>Properties of the write-conflict tiler\<close>

subsection \<open>Discovery and accumulation\<close>

lemma collect_edges_no_wcr:
  "list_all (\<lambda>e. wcr e = None) es \<Longrightarrow> collect_edges ext g es = Inr []"
  by (induction es) (auto simp: consider_edge_def)

lemma consider_edge_Some:
  "consider_edge ext g e = Inr (Some (e', m)) \<Longrightarrow>
     e' = e \<and> identity_of ext g e \<noteq> None \<and> MapEntry m \<in> set (nodes g)"
  by (auto simp: consider_edge_def identity_of_def Let_def
           split: option.splits if_splits node.splits)

lemma consider_edge_no_identity:
  "identity_of ext g e = None \<Longrightarrow> consider_edge ext g e = Inr (Some p) \<Longrightarrow> False"
  by (auto simp: consider_edge_def identity_of_def Let_def
           split: option.splits if_splits node.splits)

lemma collect_edges_mem:
  "collect_edges ext g es = Inr found \<Longrightarrow> p \<in> set found \<Longrightarrow>
     \<exists>e \<in> set es. consider_edge ext g e = Inr (Some p)"
proof (induction es arbitrary: found)
  case Nil
  then show ?case by simp
next
  case (Cons e es)
  then show ?case
    by (auto split: sum.splits option.splits)
qed

lemma accumulate_edge_events:
  "accumulate_edge ext g m e = Inr evs \<Longrightarrow> ev \<in> set evs \<Longrightarrow>
     (\<exists>t. ev = StreamTransient m t)
     \<or> (\<exists>idv. ev = AccumulateTransient m (data e) idv \<and> identity_of ext g e = Some idv)"
  by (auto simp: accumulate_edge_def identity_of_def Let_def
           split: option.splits if_splits list.splits)

lemma accumulate_edge_no_identity:
  "identity_of ext g e = None \<Longrightarrow> accumulate_edge ext g m e = Inr evs \<Longrightarrow>
     AccumulateTransient m' a idv \<notin> set evs"
  by (auto simp: accumulate_edge_def identity_of_def Let_def
           split: option.splits if_splits list.splits)

lemma accumulate_edges_events:
  "accumulate_edges ext g m es = Inr evs \<Longrightarrow> ev \<in> set evs \<Longrightarrow>
     (\<exists>t. ev = StreamTransient m t)
     \<or> (\<exists>e \<in> set es. \<exists>idv. ev = AccumulateTransient m (data e) idv
            \<and> identity_of ext g e = Some idv)"
proof (induction es arbitrary: evs)
  case Nil
  then show ?case by simp
next
  case (Cons e es)
  from Cons.prems(1) obtain evs1 evs2 where
    1: "accumulate_edge ext g m e = Inr evs1" and
    2: "accumulate_edges ext g m es = Inr evs2" and 3: "evs = evs1 @ evs2"
    by (auto split: sum.splits)
  from Cons.prems(2) 3 consider "ev \<in> set evs1" | "ev \<in> set evs2" by auto
  then show ?case
  proof cases
    case 1
    from accumulate_edge_events [OF \<open>accumulate_edge ext g m e = Inr evs1\<close> this]
    show ?thesis by auto
  next
    case 2
    from Cons.IH [OF \<open>accumulate_edges ext g m es = Inr evs2\<close> this]
    show ?thesis by auto
  qed
qed


lemma accumulate_edges_no_extract:
  "accumulate_edges ext g m es = Inr evs \<Longrightarrow> Extract_map_dims m' ds \<notin> set evs"
  using accumulate_edges_events [of ext g m es evs "Extract_map_dims m' ds"] by auto

subsection \<open>The loop over the edges to consider\<close>





lemma tile_step_trace:
  assumes "tile_step ext cfg g em st = Inr st'"
  shows "\<exists>evs. trace st' = trace st @ evs \<and> list_all (\<lambda>ev. \<not> rewrite_free ev) evs
           \<and> list_all (justified ext g) evs"
proof (cases "snd em \<in> set (transformed st)")
  case True
  with assms show ?thesis by (simp add: tile_step_def Let_def)
next
  case False
  show ?thesis
  proof (cases "small_map (symbolics ext) (autotile_size cfg) (maps_now st (snd em))")
    case True
    with False assms have "trace st' = trace st
        @ (if debugprint cfg then [Print_Making_sequential (snd em)] else [])"
      by (auto simp add: tile_step_def Let_def small_map_def)
    then show ?thesis by simp
  next
    case notsmall: False
    with False assms obtain evs where
      evs: "accumulate_edges ext g (snd em) (out_edges_of_exit ext (snd em)) = Inr evs"
      and st': "trace st' = trace st @ MapTiling (snd em) (autotile_size cfg) # evs"
      by (auto simp: tile_step_def Let_def small_map_def split: sum.splits)
    have "\<not> rewrite_free ev \<and> justified ext g ev" if "ev \<in> set evs" for ev
      using accumulate_edges_events [OF evs that] by (auto simp: list_ex_iff)
    then have "list_all (\<lambda>ev. \<not> rewrite_free ev) evs \<and> list_all (justified ext g) evs"
      by (simp add: list_all_iff)
    with st' show ?thesis by simp
  qed
qed

lemma tile_loop_trace:
  "tile_loop ext cfg g etc st = Inr st' \<Longrightarrow>
     \<exists>evs. trace st' = trace st @ evs \<and> list_all (\<lambda>ev. \<not> rewrite_free ev) evs
           \<and> list_all (justified ext g) evs"
proof (induction etc arbitrary: st)
  case Nil
  then show ?case by simp
next
  case (Cons em etc)
  from Cons.prems obtain st1 where 1: "tile_step ext cfg g em st = Inr st1"
    and 2: "tile_loop ext cfg g etc st1 = Inr st'" by (auto split: sum.splits)
  from tile_step_trace [OF 1] obtain evs1 where
    a: "trace st1 = trace st @ evs1" "list_all (\<lambda>ev. \<not> rewrite_free ev) evs1"
       "list_all (justified ext g) evs1" by blast
  from Cons.IH [OF 2] obtain evs2 where
    b: "trace st' = trace st1 @ evs2" "list_all (\<lambda>ev. \<not> rewrite_free ev) evs2"
       "list_all (justified ext g) evs2" by blast
  from a b have "trace st' = trace st @ (evs1 @ evs2)
      \<and> list_all (\<lambda>ev. \<not> rewrite_free ev) (evs1 @ evs2)
      \<and> list_all (justified ext g) (evs1 @ evs2)" by simp
  then show ?case by blast
qed

subsection \<open>The extraction of non-conflicted dimensions\<close>

lemma extract_step_inv:
  "extract_inv acc \<Longrightarrow> extract_inv (extract_step ext t g etc m acc)"
  by (auto simp: extract_inv_def extract_step_def Let_def)

lemma extract_loop_inv:
  "extract_inv acc \<Longrightarrow> extract_inv (extract_loop ext t g etc ms acc)"
  by (induction ms arbitrary: acc) (auto simp: extract_step_inv)




lemma extracted_inv: "extract_inv (extracted ext cfg g p etc)"
proof -
  have "extract_inv ([], [])" by (simp add: extract_inv_def)
  then show ?thesis by (simp add: extracted_def extract_loop_inv)
qed

subsection \<open>A run on a state\<close>

lemma tile_wcrs_state_run:
  assumes "tile_wcrs_state ext cfg g p = Inr (g', tr)"
  obtains etc st evs where
    "edges_to_consider ext g = Inr etc"
    "tile_loop ext cfg g etc
       \<lparr>maps_now = maps g, transformed = fst (extracted ext cfg g p etc),
        trace = snd (extracted ext cfg g p etc)\<rparr> = Inr st"
    "g' = g\<lparr>maps := maps_now st\<rparr>"
    "tr = trace st @ evs" "evs = [] \<or> (\<exists>n. evs = [Print_Optimized n])"
  using assms
  by (auto simp: tile_wcrs_state_def Let_def extracted_def split: sum.splits if_splits)


lemma tile_wcrs_state_justified:
  assumes run: "tile_wcrs_state ext cfg g p = Inr (g', tr)"
  shows "list_all (justified ext g) tr"
proof -
  from run obtain etc st evs where
    loop: "tile_loop ext cfg g etc
       \<lparr>maps_now = maps g, transformed = fst (extracted ext cfg g p etc),
        trace = snd (extracted ext cfg g p etc)\<rparr> = Inr st"
    and tr: "tr = trace st @ evs" and evs: "evs = [] \<or> (\<exists>n. evs = [Print_Optimized n])"
    by (auto elim!: tile_wcrs_state_run)
  from tile_loop_trace [OF loop] obtain more_evs where
    ext: "trace st = snd (extracted ext cfg g p etc) @ more_evs"
    and j: "list_all (justified ext g) more_evs" by auto
  have "extract_inv (extracted ext cfg g p etc)" by (rule extracted_inv)
  then have "list_all rewrite_free (snd (extracted ext cfg g p etc))"
    by (simp add: extract_inv_def)
  then have "list_all (justified ext g) (snd (extracted ext cfg g p etc))"
    unfolding list_all_iff
  proof (intro ballI)
    fix ev assume a: "\<forall>x \<in> set (snd (extracted ext cfg g p etc)). rewrite_free x"
      and b: "ev \<in> set (snd (extracted ext cfg g p etc))"
    then have "rewrite_free ev" by blast
    then show "justified ext g ev" by (cases ev) auto
  qed
  with j ext tr evs show ?thesis by auto
qed


lemma tile_wcrs_state_no_wcr:
  assumes "list_all (\<lambda>e. wcr e = None) (edges graph)"
  shows "tile_wcrs_state ext cfg graph p = Inr (graph, [])"
proof -
  from assms have "edges_to_consider ext graph = Inr []"
    by (simp add: edges_to_consider_def collect_edges_no_wcr)
  then show ?thesis by (simp add: tile_wcrs_state_def maps_to_consider_def)
qed

lemma tile_states_no_wcr:
  "list_all (\<lambda>state. list_all (\<lambda>e. wcr e = None) (edges state)) states \<Longrightarrow>
     tile_states ext cfg states validate = Inr (map (\<lambda>state. (state, [])) states)"
  by (induction states) (auto simp: tile_wcrs_state_no_wcr)

subsection \<open>Runs on the example programs\<close>

lemmas example_defs =
  example_symbolic_def example_edge_def example_out_edge_def example_collaborators_def
  example_region_def example_config_def

lemmas tiler_defs =
  tile_wcrs_state_def edges_to_consider_def consider_edge_def maps_to_consider_def
  tile_step_def accumulate_edge_def extract_step_def nonconflicted_dims_def conflicts_def
  extract_dims_def prod_sizes_def dims_sizes_def outcome_of_def


lemma example_run_8:
  "tile_wcrs_state example_collaborators (example_config 8 False) (example_region [''i''] [Num 8]) None
     = Inr (example_region [''i''] [Num 8], [MapTiling 0 8, AccumulateTransient 0 ''A'' ''0''])"
  by (simp add: example_defs tiler_defs)


lemma example_run_extract:
  "tile_wcrs_state example_collaborators (example_config 8 True)
      (example_region [''i'', ''j''] [Num 3, Num 8]) None
     = Inr (example_region [''i'', ''j''] [Num 3, Num 8], [Extract_map_dims 0 [1]])"
  by (simp add: example_defs tiler_defs)

subsection \<open>The claims on the write-conflict tiler\<close>







text \<open>
  C3. In a run of \<open>tile_wcrs\<close> on a state that returns, every edge in
  \<open>edges_to_consider\<close> has a reduction identity for the element type of its array and
  the reduction type of its resolution, and an edge without one is not in it; every
  \<open>AccumulateTransient\<close> that is applied carries the array and the reduction identity
  of an out-edge of the exit of its map; and the iteration over an out-edge without a
  reduction identity applies no \<open>AccumulateTransient\<close>.
\<close>

theorem tile_wcrs_identity:
  assumes "tile_wcrs_state ext cfg graph p = Inr (graph', tr)"
  shows "(\<exists>etc. edges_to_consider ext graph = Inr etc
            \<and> (\<forall>e m. (e, m) \<in> set etc \<longrightarrow> (\<exists>idv. identity_of ext graph e = Some idv))
            \<and> (\<forall>e m. identity_of ext graph e = None \<longrightarrow> (e, m) \<notin> set etc))
       \<and> (\<forall>m a idv. AccumulateTransient m a idv \<in> set tr \<longrightarrow>
            (\<exists>e \<in> set (out_edges_of_exit ext m).
                data e = a \<and> identity_of ext graph e = Some idv))
       \<and> (\<forall>e m evs. identity_of ext graph e = None
                      \<and> accumulate_edge ext graph m e = Inr evs \<longrightarrow>
            (\<forall>a idv. AccumulateTransient m a idv \<notin> set evs))"
proof (intro conjI)
  from assms obtain etc where etc: "edges_to_consider ext graph = Inr etc"
    by (auto elim!: tile_wcrs_state_run)
  then obtain found where found: "collect_edges ext graph (edges graph) = Inr found"
    and "etc = remdups found"
    by (auto simp: edges_to_consider_def split: sum.splits)
  have has: "\<exists>idv. identity_of ext graph e = Some idv" if "(e, m) \<in> set etc" for e m
  proof -
    from that \<open>etc = remdups found\<close> have "(e, m) \<in> set found" by simp
    from collect_edges_mem [OF found this] obtain e' where
      "consider_edge ext graph e' = Inr (Some (e, m))" by blast
    from consider_edge_Some [OF this] show ?thesis by auto
  qed
  then have "\<forall>e m. identity_of ext graph e = None \<longrightarrow> (e, m) \<notin> set etc" by fastforce
  with etc has show "\<exists>etc. edges_to_consider ext graph = Inr etc
            \<and> (\<forall>e m. (e, m) \<in> set etc \<longrightarrow> (\<exists>idv. identity_of ext graph e = Some idv))
            \<and> (\<forall>e m. identity_of ext graph e = None \<longrightarrow> (e, m) \<notin> set etc)" by blast
next
  have "list_all (justified ext graph) tr" using assms by (rule tile_wcrs_state_justified)
  then have "\<And>ev. ev \<in> set tr \<Longrightarrow> justified ext graph ev" by (simp add: list_all_iff)
  then have "\<And>m a idv. AccumulateTransient m a idv \<in> set tr \<Longrightarrow>
      \<exists>e \<in> set (out_edges_of_exit ext m). data e = a \<and> identity_of ext graph e = Some idv"
    by (fastforce simp: list_ex_iff)
  then show "\<forall>m a idv. AccumulateTransient m a idv \<in> set tr \<longrightarrow>
            (\<exists>e \<in> set (out_edges_of_exit ext m).
                data e = a \<and> identity_of ext graph e = Some idv)" by blast
next
  show "\<forall>e m evs. identity_of ext graph e = None
                      \<and> accumulate_edge ext graph m e = Inr evs \<longrightarrow>
            (\<forall>a idv. AccumulateTransient m a idv \<notin> set evs)"
    using accumulate_edge_no_identity by blast
qed

theorem tile_wcrs_identity_witness:
  "tile_wcrs_state example_collaborators (example_config 8 False)
      (example_region [''i''] [Num 8]) None
     = Inr (example_region [''i''] [Num 8], [MapTiling 0 8, AccumulateTransient 0 ''A'' ''0''])
   \<and> (\<exists>e \<in> set (out_edges_of_exit example_collaborators 0).
         data e = ''A''
         \<and> identity_of example_collaborators (example_region [''i''] [Num 8]) e = Some ''0'')"
proof -
  have "AccumulateTransient 0 ''A'' ''0'' \<in> set [MapTiling 0 8, AccumulateTransient 0 ''A'' ''0'']"
    by simp
  with tile_wcrs_identity [OF example_run_8]
  have "\<exists>e \<in> set (out_edges_of_exit example_collaborators 0).
         data e = ''A''
         \<and> identity_of example_collaborators (example_region [''i''] [Num 8]) e = Some ''0''"
    by blast
  with example_run_8 show ?thesis by blast
qed

text \<open>
  C4. On an SDFG none of whose edges has a write-conflict resolution, \<open>tile_wcrs\<close>
  returns without an exception, every state is as it was (nodes, edges, arrays and the
  schedules of the maps), and no rewrite is applied and nothing printed; the same holds
  for \<open>tile_wcrs\<close> on each of its states.
\<close>

theorem tile_wcrs_no_wcr_unchanged:
  assumes "list_all (\<lambda>state. list_all (\<lambda>e. wcr e = None) (edges state)) states"
  shows "tile_wcrs ext cfg (On_SDFG states) validate p
           = Inr (map (\<lambda>state. (state, [])) states)
         \<and> (\<forall>state. state \<in> set states \<longrightarrow>
              tile_wcrs ext cfg (On_State state) validate p = Inr [(state, [])])"
proof (intro conjI allI impI)
  from assms show "tile_wcrs ext cfg (On_SDFG states) validate p
           = Inr (map (\<lambda>state. (state, [])) states)"
    by (simp add: tile_states_no_wcr)
next
  fix state assume "state \<in> set states"
  with assms have "list_all (\<lambda>e. wcr e = None) (edges state)" by (simp add: list_all_iff)
  then show "tile_wcrs ext cfg (On_State state) validate p = Inr [(state, [])]"
    by (simp add: tile_wcrs_state_no_wcr)
qed

theorem tile_wcrs_no_wcr_unchanged_witness:
  "tile_wcrs example_collaborators (example_config 8 True) (On_SDFG [plain_region, plain_region])
      False None
     = Inr [(plain_region, []), (plain_region, [])]"
proof -
  have "list_all (\<lambda>state. list_all (\<lambda>e. wcr e = None) (edges state))
          [plain_region, plain_region]"
    by (simp add: plain_region_def)
  from tile_wcrs_no_wcr_unchanged [OF this] show ?thesis by simp
qed

text \<open>
  C10. On an SDFG, \<open>tile_wcrs\<close> does not depend on \<open>prefer_partial_parallelism\<close>:
  each state is tiled by \<open>tile_wcrs\<close> with that argument \<open>None\<close>, which is the run
  with the value of \<open>autotile_partial_parallelism\<close> of the configuration.
\<close>

theorem tile_wcrs_drops_preference:
  "tile_wcrs ext cfg (On_SDFG states) validate p
     = tile_wcrs ext cfg (On_SDFG states) validate None
   \<and> tile_wcrs ext cfg (On_SDFG (state # states)) validate p
     = (case tile_wcrs ext cfg (On_State state) validate None of
          Inl err \<Rightarrow> Inl err
        | Inr result \<Rightarrow>
            (case tile_wcrs ext cfg (On_SDFG states) validate p of
               Inl err \<Rightarrow> Inl err
             | Inr later \<Rightarrow> Inr (result @ later)))
   \<and> tile_wcrs ext cfg (On_State state) validate None
     = tile_wcrs ext cfg (On_State state) validate (Some (autotile_partial_parallelism cfg))"
  by (auto simp: tile_wcrs_state_def split: sum.splits)

text \<open>
  With extraction preferred by the configuration and refused by the caller, the state
  is extracted from when it is reached through its SDFG, and tiled when it is given
  itself.
\<close>

lemma tile_wcrs_preference_example:
  "tile_wcrs example_collaborators (example_config 8 True)
      (On_SDFG [example_region [''i'', ''j''] [Num 3, Num 8]]) False (Some False)
     = Inr [(example_region [''i'', ''j''] [Num 3, Num 8], [Extract_map_dims 0 [1]])]
   \<and> tile_wcrs example_collaborators (example_config 8 True)
      (On_State (example_region [''i'', ''j''] [Num 3, Num 8])) False (Some False)
     = Inr [(example_region [''i'', ''j''] [Num 3, Num 8],
             [MapTiling 0 8, AccumulateTransient 0 ''A'' ''0''])]"
  by (simp add: example_run_extract) (simp add: example_defs tiler_defs)

end
